theory Spec2Isabelle
  imports Complex_Main "HOL-Library.Sublist"
begin

section \<open>Python string operations\<close>

text \<open>
  A Python \<open>str\<close> is modelled as a \<open>string\<close>, each \<open>char\<close> standing for one code
  point below 256 (the Latin-1 range). Python floats are modelled as exact reals.
\<close>

text \<open>The code points below 256 for which \<open>str.isspace\<close> holds.\<close>

definition is_space :: "char \<Rightarrow> bool" where
  "is_space c = (c \<in> set [CHR 0x09, CHR 0x0A, CHR 0x0B, CHR 0x0C, CHR 0x0D,
                          CHR 0x1C, CHR 0x1D, CHR 0x1E, CHR 0x1F, CHR 0x20,
                          CHR 0x85, CHR 0xA0])"

text \<open>
  \<open>s.split()\<close> with no separator: the maximal runs of non-whitespace characters, in
  order. \<open>cur\<close> is the token read so far.
\<close>

fun split_acc :: "string \<Rightarrow> string \<Rightarrow> string list" where
  "split_acc cur [] = (if cur = [] then [] else [cur])"
| "split_acc cur (c # cs) =
     (if is_space c then (if cur = [] then split_acc [] cs else cur # split_acc [] cs)
      else split_acc (cur @ [c]) cs)"

definition str_split :: "string \<Rightarrow> string list" where
  "str_split s = split_acc [] s"

text \<open>\<open>sep.join(ws)\<close>\<close>

fun str_join :: "string \<Rightarrow> string list \<Rightarrow> string" where
  "str_join sep [] = []"
| "str_join sep [w] = w"
| "str_join sep (w # v # ws) = w @ sep @ str_join sep (v # ws)"

text \<open>
  \<open>s.replace(old, new)\<close>: every non-overlapping occurrence of \<open>old\<close>, found from left
  to right, is replaced. With an empty \<open>old\<close>, Python puts \<open>new\<close> before every
  character and at the end.
\<close>

fun replace_scan :: "string \<Rightarrow> string \<Rightarrow> string \<Rightarrow> string" where
  "replace_scan old new [] = []"
| "replace_scan old new (c # cs) =
     (if old \<noteq> [] \<and> prefix old (c # cs)
      then new @ replace_scan old new (drop (length old) (c # cs))
      else c # replace_scan old new cs)"

definition str_replace :: "string \<Rightarrow> string \<Rightarrow> string \<Rightarrow> string" where
  "str_replace old new s =
     (if old = [] then new @ concat (map (\<lambda>c. c # new) s) else replace_scan old new s)"

text \<open>\<open>s.strip()\<close>\<close>

definition str_strip :: "string \<Rightarrow> string" where
  "str_strip s = rev (dropWhile is_space (rev (dropWhile is_space s)))"

text \<open>\<open>s.lower()\<close> on code points below 256.\<close>

definition lower_char :: "char \<Rightarrow> char" where
  "lower_char c =
     (let n = (of_char c :: nat)
      in if (65 \<le> n \<and> n \<le> 90) \<or> (192 \<le> n \<and> n \<le> 222 \<and> n \<noteq> 215)
         then char_of (n + 32) else c)"

definition str_lower :: "string \<Rightarrow> string" where
  "str_lower s = map lower_char s"

text \<open>\<open>old in s\<close> for strings: \<open>old\<close> occurs in \<open>s\<close> as a substring.\<close>

fun str_contains :: "string \<Rightarrow> string \<Rightarrow> bool" where
  "str_contains old [] = (old = [])"
| "str_contains old (c # cs) = (prefix old (c # cs) \<or> str_contains old cs)"

section \<open>The request and the result\<close>

record optimization_request =
  prompt :: string
  context_type :: string
  budget :: real
  quality_threshold :: real
  optimization_strategy :: string

record token_analysis =
  original_tokens :: nat
  optimized_tokens :: nat
  reduction_percentage :: real

text \<open>
  The \<open>ml_insights\<close> dictionaries: \<open>simple_app.py\<close> has three keys,
  \<open>api/optimize.py\<close> a fourth one, \<open>app.py\<close> the two predictions instead.
\<close>

record insights_core =
  complexity_score :: real
  confidence :: real

record ml_insights = insights_core +
  optimization_potential :: real

record ml_insights_api = ml_insights +
  strategy_effectiveness :: real

record backend_insights = insights_core +
  predicted_cost_reduction :: real
  predicted_quality :: real

record 'i optimization_result =
  original_prompt :: string
  optimized_prompt :: string
  cost_reduction :: real
  quality_score :: real
  tokens :: token_analysis
  insights :: 'i
  optimization_strategies :: "string list"

text \<open>The exceptions the modelled code can raise.\<close>

datatype error = ZeroDivisionError | KeyError string | TypeError

section \<open>\<open>api/optimize.py\<close>\<close>

definition filler_words :: "string list" where
  "filler_words =
     [''the'', ''a'', ''an'', ''and'', ''or'', ''but'', ''in'', ''on'', ''at'', ''to'',
      ''for'', ''of'', ''with'', ''by'', ''please'', ''kindly'', ''would'', ''could'',
      ''should'', ''might'', ''may'', ''can'', ''will'', ''shall'']"

text \<open>The dictionary is iterated in insertion order.\<close>

definition verbose_replacements :: "(string \<times> string) list" where
  "verbose_replacements =
     [(''in order to'', ''to''),
      (''due to the fact that'', ''because''),
      (''at this point in time'', ''now''),
      (''i would like to'', ''need''),
      (''can you help me'', ''help''),
      (''if it is possible'', ''if possible''),
      (''as soon as possible'', ''ASAP''),
      (''with regard to'', ''regarding''),
      (''in the event that'', ''if''),
      (''prior to'', ''before''),
      (''subsequent to'', ''after''),
      (''in the near future'', ''soon''),
      (''in the meantime'', ''meanwhile''),
      (''for the purpose of'', ''to''),
      (''in the case of'', ''if''),
      (''with reference to'', ''re:''),
      (''in accordance with'', ''per''),
      (''in the absence of'', ''without''),
      (''in the presence of'', ''with''),
      (''in the context of'', ''in''),
      (''with respect to'', ''re:''),
      (''in terms of'', ''for''),
      (''from the perspective of'', ''from''),
      (''in the form of'', ''as''),
      (''in the process of'', ''while''),
      (''in the course of'', ''during''),
      (''in the midst of'', ''amid''),
      (''in the wake of'', ''after''),
      (''in the face of'', ''despite''),
      (''in the light of'', ''given'')]"

text \<open>\<open>for old, new in table: text = text.replace(old, new)\<close>\<close>

definition replace_all :: "(string \<times> string) list \<Rightarrow> string \<Rightarrow> string" where
  "replace_all table s = fold (\<lambda>(old, new) t. str_replace old new t) table s"

text \<open>Lines 93 to 99: the filler-word filter.\<close>

definition keep_word :: "string \<Rightarrow> bool" where
  "keep_word word = (str_lower word \<notin> set filler_words \<or> length word > 3)"

definition remove_fillers :: "string \<Rightarrow> string" where
  "remove_fillers s = str_join '' '' (filter keep_word (str_split s))"

text \<open>Lines 102 to 107: spacing and punctuation.\<close>

definition punctuation_table :: "(string \<times> string) list" where
  "punctuation_table =
     [(''  '', '' ''), ('' ,'', '',''), ('' .'', ''.''), ('' ?'', ''?''), ('' !'', ''!'')]"

definition fix_punctuation :: "string \<Rightarrow> string" where
  "fix_punctuation s = replace_all punctuation_table (str_join '' '' (str_split s))"

text \<open>Lines 110 to 115: the article after a verb cue.\<close>

definition pattern_table :: "(string \<times> string) list" where
  "pattern_table =
     [(''create a'', ''create''), (''build a'', ''build''), (''make a'', ''make''),
      (''generate a'', ''generate''), (''implement a'', ''implement''),
      (''develop a'', ''develop'')]"

definition optimize_text :: "string \<Rightarrow> string" where
  "optimize_text p =
     str_strip (replace_all pattern_table
       (fix_punctuation (remove_fillers (replace_all verbose_replacements p))))"

definition token_reduction :: "nat \<Rightarrow> nat \<Rightarrow> int" where
  "token_reduction orig opt = max 0 (int orig - int opt)"

definition optimize_prompt :: "string \<Rightarrow> ml_insights_api optimization_result" where
  "optimize_prompt p =
     (let orig = length (str_split p);
          optimized = optimize_text p;
          opt = length (str_split optimized);
          red = token_reduction orig opt;
          cost = real_of_int red * 0.002;
          quality = min 0.95 (0.85 + (real_of_int red / real (max orig 1)) * 0.3)
      in \<lparr> original_prompt = p,
           optimized_prompt = optimized,
           cost_reduction = cost,
           quality_score = quality,
           tokens = \<lparr> original_tokens = orig, optimized_tokens = opt,
                      reduction_percentage =
                        (if orig > 0 then real_of_int red / real orig * 100 else 0) \<rparr>,
           insights = \<lparr> complexity_score = min 1.0 (real orig / 50.0),
                        confidence = quality,
                        optimization_potential = min 1.0 (real_of_int red / 10.0),
                        strategy_effectiveness = min 1.0 (real_of_int red / 5.0) \<rparr>,
           optimization_strategies =
             [''filler_removal'', ''verbose_phrase_replacement'',
              ''punctuation_optimization'', ''pattern_optimization''] \<rparr>)"

text \<open>
  The \<open>/optimize\<close> route: only the prompt of the request is read. An exception of
  \<open>optimize_prompt\<close> would become an HTTP 500 error; \<open>optimize_prompt\<close> raises none.
\<close>

definition optimize ::
  "optimization_request \<Rightarrow> error + ml_insights_api optimization_result" where
  "optimize request = Inr (optimize_prompt (prompt request))"

text \<open>
  \<open>broadcast_message\<close>: the first loop sends to every connection and collects those
  whose send raised; the second loop removes them. \<open>fails c\<close> says that the send to
  \<open>c\<close> raises; the second component of the result is the list of sends that succeeded.
\<close>

definition send_all :: "('c \<Rightarrow> bool) \<Rightarrow> 'm \<Rightarrow> 'c list \<Rightarrow> 'c list \<times> ('c \<times> 'm) list" where
  "send_all fails message conns =
     fold (\<lambda>connection (disconnected, sent).
             if fails connection then (disconnected @ [connection], sent)
             else (disconnected, sent @ [(connection, message)]))
          conns ([], [])"

definition remove_disconnected :: "'c list \<Rightarrow> 'c list \<Rightarrow> 'c list" where
  "remove_disconnected disconnected conns =
     fold (\<lambda>connection active.
             if connection \<in> set active then remove1 connection active else active)
          disconnected conns"

definition broadcast_message ::
  "('c \<Rightarrow> bool) \<Rightarrow> 'm \<Rightarrow> 'c list \<Rightarrow> 'c list \<times> ('c \<times> 'm) list" where
  "broadcast_message fails message active_connections =
     (if active_connections \<noteq> [] then
        (let (disconnected, sent) = send_all fails message active_connections
         in (remove_disconnected disconnected active_connections, sent))
      else (active_connections, []))"

section \<open>\<open>optimization-backend/simple_app.py\<close>\<close>

definition simple_filler_words :: "string list" where
  "simple_filler_words =
     [''the'', ''a'', ''an'', ''and'', ''or'', ''but'', ''in'', ''on'', ''at'', ''to'',
      ''for'', ''of'', ''with'', ''by'']"

definition simple_redundant_phrases :: "string list" where
  "simple_redundant_phrases =
     [''please'', ''kindly'', ''if possible'', ''if you can'', ''would you mind'',
      ''i would like to'', ''i want to'', ''i need to'', ''can you help me'']"

text \<open>Lines 85 to 87: each phrase is removed and the text stripped.\<close>

definition simple_strip_phrases :: "string \<Rightarrow> string" where
  "simple_strip_phrases p =
     fold (\<lambda>phrase t. str_strip (str_replace phrase [] t)) simple_redundant_phrases p"

definition simple_table :: "(string \<times> string) list" where
  "simple_table =
     [(''in order to'', ''to''), (''due to the fact that'', ''because''),
      (''at this point in time'', ''now'')]"

definition simple_optimize_text :: "string \<Rightarrow> string" where
  "simple_optimize_text p =
     str_join '' '' (str_split (replace_all simple_table (simple_strip_phrases p)))"

text \<open>
  The list \<open>filtered_words\<close> of the source is computed and never used. The division of
  line 102 raises when the prompt has no token.
\<close>

definition simple_optimize_prompt ::
  "string \<Rightarrow> string \<Rightarrow> error + ml_insights optimization_result" where
  "simple_optimize_prompt p ctx =
     (let orig = length (str_split p);
          optimized_text = simple_optimize_text p;
          opt = length (str_split optimized_text);
          red = token_reduction orig opt;
          cost = real_of_int red * 0.002
      in if orig = 0 then Inl ZeroDivisionError
         else
           (let quality = min 0.95 (0.8 + (real_of_int red / real orig) * 0.3)
            in Inr \<lparr> original_prompt = p,
                     optimized_prompt = optimized_text,
                     cost_reduction = cost,
                     quality_score = quality,
                     tokens = \<lparr> original_tokens = orig, optimized_tokens = opt,
                                reduction_percentage =
                                  (if orig > 0 then real_of_int red / real orig * 100 else 0) \<rparr>,
                     insights = \<lparr> complexity_score = min 1.0 (real orig / 50.0),
                                  confidence = quality,
                                  optimization_potential = min 1.0 (real_of_int red / 10.0) \<rparr>,
                     optimization_strategies =
                       [''filler_removal'', ''redundancy_reduction'',
                        ''sentence_simplification''] \<rparr>))"

section \<open>\<open>start-fastapi.py\<close>\<close>

definition start_filler_words :: "string list" where
  "start_filler_words =
     [''the'', ''a'', ''an'', ''and'', ''or'', ''but'', ''in'', ''on'', ''at'', ''to'',
      ''for'', ''of'', ''with'', ''by'', ''please'', ''kindly'']"

text \<open>Lines 56 to 59: the filter has no length test.\<close>

definition start_remove_fillers :: "string \<Rightarrow> string" where
  "start_remove_fillers s =
     str_join '' '' (filter (\<lambda>word. str_lower word \<notin> set start_filler_words) (str_split s))"

definition start_table :: "(string \<times> string) list" where
  "start_table =
     [(''in order to'', ''to''), (''due to the fact that'', ''because''),
      (''at this point in time'', ''now''), (''i would like to'', ''need''),
      (''can you help me'', ''help'')]"

definition start_optimize_text :: "string \<Rightarrow> string" where
  "start_optimize_text p =
     str_join '' '' (str_split (replace_all start_table (start_remove_fillers p)))"

section \<open>\<open>optimization-backend/app.py\<close>\<close>

subsection \<open>The complexity score\<close>

definition complexity_indicators :: "string list" where
  "complexity_indicators =
     [''machine learning'', ''neural network'', ''deep learning'', ''algorithm'',
      ''optimization'', ''performance'', ''scalability'', ''microservices'',
      ''real-time'', ''asynchronous'', ''concurrent'', ''distributed'']"

definition calculate_complexity :: "string \<Rightarrow> real" where
  "calculate_complexity p =
     (let prompt_lower = str_lower p;
          score = length (filter (\<lambda>indicator. str_contains indicator prompt_lower)
                                 complexity_indicators)
      in min 1.0 (real score / 5.0))"

subsection \<open>The strategies\<close>

text \<open>
  \<open>word_freq\<close>: a dictionary read with \<open>get(word, 0)\<close>, that is, a function that is 0
  on the words it does not hold.
\<close>

definition count_words :: "string list \<Rightarrow> string \<Rightarrow> nat" where
  "count_words words = fold (\<lambda>word freq. freq(word := freq word + 1)) words (\<lambda>_. 0)"

definition entropy_keep :: "(string \<Rightarrow> nat) \<Rightarrow> nat \<Rightarrow> string \<Rightarrow> bool" where
  "entropy_keep word_freq total_words word =
     (if real (word_freq word) / real total_words > 0.1 then True
      else if length word > 6 then True
      else False)"

definition entropy_optimization :: "string \<Rightarrow> string" where
  "entropy_optimization p =
     (let words = str_split p;
          word_freq = count_words words;
          total_words = length words
      in str_join '' '' (filter (entropy_keep word_freq total_words) words))"

definition semantic_replacements :: "(string \<times> string) list" where
  "semantic_replacements =
     [(''create a'', ''build''), (''implement a'', ''code''), (''develop a'', ''make''),
      (''construct a'', ''build''), (''generate a'', ''create''), (''produce a'', ''make''),
      (''design a'', ''build''), (''establish a'', ''create'')]"

definition semantic_compression :: "string \<Rightarrow> string" where
  "semantic_compression p = replace_all semantic_replacements (str_lower p)"

definition redundant_phrases :: "string list" where
  "redundant_phrases =
     [''please'', ''kindly'', ''i would like to'', ''i need to'', ''could you'',
      ''would you'', ''i want to'']"

definition strip_phrases :: "string list \<Rightarrow> string \<Rightarrow> string" where
  "strip_phrases phrases s = fold (\<lambda>phrase t. str_replace phrase [] t) phrases s"

definition context_aware_trimming :: "string \<Rightarrow> string" where
  "context_aware_trimming p = str_join '' '' (str_split (strip_phrases redundant_phrases p))"

definition ml_guided_optimization :: "string \<Rightarrow> backend_insights \<Rightarrow> string" where
  "ml_guided_optimization p ins =
     (let complexity = complexity_score ins
      in if complexity > 0.7 then entropy_optimization p
         else if complexity > 0.4 then semantic_compression p
         else context_aware_trimming p)"

definition adaptive_compression :: "string \<Rightarrow> string" where
  "adaptive_compression p =
     context_aware_trimming (semantic_compression (entropy_optimization p))"

text \<open>The table of strategies: one of them takes the insights as well.\<close>

datatype strategy_fn =
  Plain "string \<Rightarrow> string"
| Guided "string \<Rightarrow> backend_insights \<Rightarrow> string"

definition strategies :: "string \<Rightarrow> strategy_fn option" where
  "strategies = map_of
     [(''entropy_optimization'', Plain entropy_optimization),
      (''semantic_compression'', Plain semantic_compression),
      (''context_aware_trimming'', Plain context_aware_trimming),
      (''ml_guided_optimization'', Guided ml_guided_optimization),
      (''adaptive_compression'', Plain adaptive_compression)]"

subsection \<open>\<open>MLOptimizationEngine.predict_optimization\<close>\<close>

text \<open>
  Line 211 applies \<open>np.var\<close> to \<open>self.cost_predictor.estimators_\<close>, the list of the
  fitted trees of the forest. The trees are objects, not numbers, and the variance of
  such a list cannot be computed: the call raises \<open>TypeError\<close>.
\<close>

definition estimators_variance :: "error + real" where
  "estimators_variance = Inl TypeError"

text \<open>
  Lines 189 to 219. The two predictions of the random forests (lines 207 and 208) are
  the parameter \<open>forest\<close>. The variance of line 211 comes after them, and the dictionary
  of insights is built only when it returns.
\<close>

definition predict_optimization ::
  "(optimization_request \<Rightarrow> real \<times> real) \<Rightarrow> optimization_request \<Rightarrow> error + backend_insights"
  where
  "predict_optimization forest request =
     (let (predicted_cost, predicted_qual) = forest request
      in case estimators_variance of
           Inl e \<Rightarrow> Inl e
         | Inr cost_variance \<Rightarrow>
             Inr \<lparr> complexity_score = calculate_complexity (prompt request),
                   confidence = max 0.5 (1.0 - cost_variance),
                   predicted_cost_reduction = predicted_cost,
                   predicted_quality = predicted_qual \<rparr>)"

subsection \<open>The \<open>/optimize\<close> route, lines 428 to 452\<close>

text \<open>Lines 437 to 446: the choice of the strategy, from the insights.\<close>

definition select_strategy :: "optimization_request \<Rightarrow> backend_insights \<Rightarrow> string" where
  "select_strategy request ins =
     (if optimization_strategy request = ''auto'' then
        (if complexity_score ins > 0.7 then ''ml_guided_optimization''
         else if complexity_score ins > 0.4 then ''adaptive_compression''
         else ''semantic_compression'')
      else optimization_strategy request)"

text \<open>Lines 449 to 452: a name that is not in the table raises \<open>KeyError\<close>.\<close>

definition apply_strategy :: "string \<Rightarrow> string \<Rightarrow> backend_insights \<Rightarrow> error + string" where
  "apply_strategy strategy p ins =
     (if strategy = ''ml_guided_optimization'' then
        (case strategies strategy of
           None \<Rightarrow> Inl (KeyError strategy)
         | Some (Guided f) \<Rightarrow> Inr (f p ins)
         | Some (Plain f) \<Rightarrow> Inl TypeError)
      else
        (case strategies strategy of
           None \<Rightarrow> Inl (KeyError strategy)
         | Some (Plain f) \<Rightarrow> Inr (f p)
         | Some (Guided f) \<Rightarrow> Inl TypeError))"

text \<open>Lines 437 to 452: the strategy is chosen and applied to the prompt.\<close>

definition select_and_apply :: "optimization_request \<Rightarrow> backend_insights \<Rightarrow> error + string" where
  "select_and_apply request ins =
     apply_strategy (select_strategy request ins) (prompt request) ins"

text \<open>
  The route down to line 452: the insights are asked for first, and an exception of any
  step ends the call (the handler of line 491 turns it into an HTTP 500 error).
\<close>

definition optimized_prompt_of ::
  "(optimization_request \<Rightarrow> real \<times> real) \<Rightarrow> optimization_request \<Rightarrow> error + string"
  where
  "optimized_prompt_of forest request =
     (case predict_optimization forest request of
        Inl e \<Rightarrow> Inl e
      | Inr ins \<Rightarrow> select_and_apply request ins)"

subsection \<open>\<open>RealTimeAnalytics\<close>\<close>

text \<open>
  An entry of the history is the result with the time of the call. The result may be
  any record that extends \<open>optimization_result\<close>.
\<close>

type_synonym ('i, 'z) history = "(string \<times> ('i, 'z) optimization_result_scheme) list"

definition update_metrics ::
  "string \<Rightarrow> ('i, 'z) optimization_result_scheme \<Rightarrow> ('i, 'z) history \<Rightarrow> ('i, 'z) history" where
  "update_metrics now optimization_result metrics_history =
     (let h = metrics_history @ [(now, optimization_result)]
      in if length h > 1000 then drop (length h - 1000) h else h)"

text \<open>
  The analytics, without \<open>top_strategies\<close>. On an empty history the dictionary has no
  \<open>recent_trend\<close>.
\<close>

record analytics =
  total_optimizations :: nat
  average_savings :: real
  total_savings :: real
  success_rate :: real
  recent_trend :: "real option"

definition mean :: "real list \<Rightarrow> real" where
  "mean xs = sum_list xs / real (length xs)"

definition get_real_time_analytics :: "('i, 'z) history \<Rightarrow> analytics" where
  "get_real_time_analytics metrics_history =
     (if metrics_history = [] then
        \<lparr> total_optimizations = 0, average_savings = 0, total_savings = 0,
          success_rate = 0, recent_trend = None \<rparr>
      else
        (let costs = map (\<lambda>e. cost_reduction (snd e)) metrics_history;
             good = map (\<lambda>e. if quality_score (snd e) > 0.9 then 1 else 0) metrics_history
         in \<lparr> total_optimizations = length metrics_history,
              average_savings = mean costs,
              total_savings = sum_list costs,
              success_rate = mean good,
              recent_trend = Some (mean (drop (length costs - 10) costs)) \<rparr>))"

text \<open>A sequence of calls of \<open>update_metrics\<close>, each with its time and its result.\<close>

definition record_all ::
  "(string \<times> ('i, 'z) optimization_result_scheme) list \<Rightarrow> ('i, 'z) history \<Rightarrow> ('i, 'z) history"
  where
  "record_all calls metrics_history =
     fold (\<lambda>(now, r) h. update_metrics now r h) calls metrics_history"

subsection \<open>\<open>ConnectionManager.broadcast\<close>\<close>

text \<open>
  The \<open>for\<close> loop reads the list by position while the handler of a failed send
  removes from the same list: \<open>i\<close> is the position of the iterator.
\<close>

function broadcast_loop ::
  "('c \<Rightarrow> bool) \<Rightarrow> 'm \<Rightarrow> nat \<Rightarrow> 'c list \<Rightarrow> ('c \<times> 'm) list \<Rightarrow> 'c list \<times> ('c \<times> 'm) list" where
  "broadcast_loop fails message i conns sent =
     (if i < length conns then
        (let connection = conns ! i
         in if fails connection
            then broadcast_loop fails message (Suc i) (remove1 connection conns) sent
            else broadcast_loop fails message (Suc i) conns (sent @ [(connection, message)]))
      else (conns, sent))"
  by pat_completeness auto
termination
proof (relation "measure (\<lambda>(fails, message, i, conns, sent). length conns - i)")
  show "wf (measure (\<lambda>(fails, message, i, conns, sent). length conns - i))"
    by simp
next
  fix fails :: "'c \<Rightarrow> bool" and message :: 'm and i conns and sent :: "('c \<times> 'm) list"
    and connection
  assume "i < length conns" "connection = conns ! i" "fails connection"
  then show "((fails, message, Suc i, remove1 connection conns, sent),
              (fails, message, i, conns, sent))
             \<in> measure (\<lambda>(fails, message, i, conns, sent). length conns - i)"
    by (simp add: length_remove1)
next
  fix fails :: "'c \<Rightarrow> bool" and message :: 'm and i conns and sent :: "('c \<times> 'm) list"
    and connection
  assume "i < length conns" "connection = conns ! i" "\<not> fails connection"
  then show "((fails, message, Suc i, conns, sent @ [(connection, message)]),
              (fails, message, i, conns, sent))
             \<in> measure (\<lambda>(fails, message, i, conns, sent). length conns - i)"
    by simp
qed

declare broadcast_loop.simps [simp del]

definition broadcast :: "('c \<Rightarrow> bool) \<Rightarrow> 'm \<Rightarrow> 'c list \<Rightarrow> 'c list \<times> ('c \<times> 'm) list" where
  "broadcast fails message active_connections =
     broadcast_loop fails message 0 active_connections []"

section \<open>Counting tokens\<close>

text \<open>
  \<open>tokc b s\<close> is the number of tokens that start in \<open>s\<close>, where \<open>b\<close> says that the
  text before \<open>s\<close> ends inside a token; \<open>in_word b x\<close> says the same after \<open>x\<close>.
  \<open>repl_ok old new\<close> is the condition under which replacing \<open>old\<close> by \<open>new\<close> cannot
  add a token; a token is \<open>clean\<close> when it is not empty and holds no whitespace.
\<close>

fun tokc :: "bool \<Rightarrow> string \<Rightarrow> nat" where
  "tokc b [] = 0"
| "tokc b (c # cs) =
     (if is_space c then tokc False cs else (if b then 0 else 1) + tokc True cs)"

definition in_word :: "bool \<Rightarrow> string \<Rightarrow> bool" where
  "in_word b x = (if x = [] then b else \<not> is_space (last x))"

definition repl_ok :: "string \<Rightarrow> string \<Rightarrow> bool" where
  "repl_ok old new =
     (old \<noteq> [] \<and>
      tokc True new + (if in_word True old \<and> \<not> in_word True new then 1 else 0) \<le> tokc True old \<and>
      tokc False new + (if in_word False old \<and> \<not> in_word False new then 1 else 0) \<le> tokc False old)"

definition clean :: "string \<Rightarrow> bool" where
  "clean w = (w \<noteq> [] \<and> (\<forall>c \<in> set w. \<not> is_space c))"

section \<open>Derived quantities\<close>

text \<open>The reduction ratio of a result: token reduction over \<open>max(original_tokens, 1)\<close>.\<close>

definition reduction_ratio :: "('i, 'z) optimization_result_scheme \<Rightarrow> real" where
  "reduction_ratio r =
     real_of_int (token_reduction (original_tokens (tokens r)) (optimized_tokens (tokens r)))
       / real (max (original_tokens (tokens r)) 1)"

section \<open>Properties of the string operations\<close>

lemma length_split_acc:
  "length (split_acc cur s) = (if cur = [] then 0 else 1) + tokc (cur \<noteq> []) s"
  by (induction s arbitrary: cur) auto

lemma length_str_split: "length (str_split s) = tokc False s"
  by (simp add: str_split_def length_split_acc)

lemma tokc_bounds: "tokc True s \<le> tokc False s \<and> tokc False s \<le> Suc (tokc True s)"
  by (cases s) auto

lemma tokc_append: "tokc b (x @ y) = tokc b x + tokc (in_word b x) y"
  by (induction x arbitrary: b) (auto simp: in_word_def)

lemma replace_scan_match:
  assumes "old \<noteq> []"
  shows "replace_scan old new (old @ rest) = new @ replace_scan old new rest"
proof -
  obtain c cs where e: "old @ rest = c # cs"
    using assms by (cases old) auto
  have "prefix old (c # cs)"
    using e by (metis prefixI)
  then have "replace_scan old new (c # cs)
               = new @ replace_scan old new (drop (length old) (c # cs))"
    using assms by simp
  then show ?thesis
    unfolding e[symmetric] by simp
qed

lemma tokc_replace_scan:
  assumes "repl_ok old new"
  shows "tokc b (replace_scan old new s) \<le> tokc b s"
proof (induction s arbitrary: b rule: length_induct)
  case (1 s)
  show ?case
  proof (cases s)
    case Nil
    then show ?thesis by simp
  next
    case (Cons c cs)
    show ?thesis
    proof (cases "prefix old s")
      case True
      then obtain rest where s: "s = old @ rest" by (auto simp: prefix_def)
      from assms have ne: "old \<noteq> []" by (simp add: repl_ok_def)
      then have lt: "length rest < length s" using s by (cases old) auto
      have rs: "replace_scan old new s = new @ replace_scan old new rest"
        using ne s by (simp add: replace_scan_match)
      have ih: "\<And>b'. tokc b' (replace_scan old new rest) \<le> tokc b' rest"
        using 1 lt by blast
      have bT: "tokc True rest \<le> tokc False rest" "tokc False rest \<le> Suc (tokc True rest)"
        using tokc_bounds by auto
      have k: "tokc b new + (if in_word b old \<and> \<not> in_word b new then 1 else 0) \<le> tokc b old"
        using assms by (cases b) (auto simp: repl_ok_def)
      have "tokc (in_word b new) (replace_scan old new rest) + tokc b new
             \<le> tokc b old + tokc (in_word b old) rest"
      proof (cases "in_word b new"; cases "in_word b old")
        assume a: "in_word b new" "in_word b old"
        then show ?thesis using ih[of True] k by simp
      next
        assume a: "in_word b new" "\<not> in_word b old"
        then show ?thesis using ih[of True] k bT by simp
      next
        assume a: "\<not> in_word b new" "in_word b old"
        then show ?thesis using ih[of False] k bT by simp
      next
        assume a: "\<not> in_word b new" "\<not> in_word b old"
        then show ?thesis using ih[of False] k by simp
      qed
      then show ?thesis by (simp add: rs tokc_append) (simp add: s tokc_append)
    next
      case False
      then have rs: "replace_scan old new s = c # replace_scan old new cs"
        using Cons by simp
      have ih: "\<And>b'. tokc b' (replace_scan old new cs) \<le> tokc b' cs"
        using 1 Cons by simp
      show ?thesis unfolding rs using ih Cons by simp
    qed
  qed
qed

lemma ntok_str_replace:
  "repl_ok old new \<Longrightarrow> length (str_split (str_replace old new s)) \<le> length (str_split s)"
  by (simp add: length_str_split str_replace_def tokc_replace_scan repl_ok_def)

lemma ntok_replace_all:
  "\<forall>(old, new) \<in> set table. repl_ok old new \<Longrightarrow>
   length (str_split (replace_all table s)) \<le> length (str_split s)"
proof (induction table arbitrary: s)
  case Nil
  then show ?case by (simp add: replace_all_def)
next
  case (Cons p table)
  obtain old new where p: "p = (old, new)" by (cases p)
  have "length (str_split (replace_all table (str_replace old new s)))
          \<le> length (str_split (str_replace old new s))"
    using Cons by simp
  also have "\<dots> \<le> length (str_split s)"
    using Cons.prems p by (simp add: ntok_str_replace)
  finally show ?case by (simp add: replace_all_def p)
qed

lemma verbose_ok: "\<forall>(old, new) \<in> set verbose_replacements. repl_ok old new"
  by (simp add: verbose_replacements_def repl_ok_def in_word_def is_space_def)

lemma punctuation_ok: "\<forall>(old, new) \<in> set punctuation_table. repl_ok old new"
  by (simp add: punctuation_table_def repl_ok_def in_word_def is_space_def)

lemma pattern_ok: "\<forall>(old, new) \<in> set pattern_table. repl_ok old new"
  by (simp add: pattern_table_def repl_ok_def in_word_def is_space_def)


lemma is_space_blank: "is_space CHR '' ''"
  by (simp add: is_space_def)

lemma split_acc_word:
  "\<forall>c \<in> set w. \<not> is_space c \<Longrightarrow> split_acc cur (w @ s) = split_acc (cur @ w) s"
  by (induction w arbitrary: cur) auto

lemma split_join:
  "\<forall>w \<in> set ws. clean w \<Longrightarrow> split_acc [] (str_join '' '' ws) = ws"
proof (induction "'' ''" ws rule: str_join.induct)
  case 1
  then show ?case by simp
next
  case (2 w)
  then have "split_acc [] (w @ []) = split_acc ([] @ w) []"
    by (intro split_acc_word) (simp add: clean_def)
  then show ?case using 2 by (simp add: clean_def)
next
  case (3 w v ws)
  have w: "\<forall>c \<in> set w. \<not> is_space c" "w \<noteq> []"
    using 3 by (auto simp: clean_def)
  have "split_acc [] (w @ '' '' @ str_join '' '' (v # ws))
          = split_acc ([] @ w) ('' '' @ str_join '' '' (v # ws))"
    using w by (intro split_acc_word)
  also have "\<dots> = w # split_acc [] (str_join '' '' (v # ws))"
    using w by (simp add: is_space_blank)
  finally show ?case using 3 by simp
qed

lemma split_acc_clean:
  "\<forall>c \<in> set cur. \<not> is_space c \<Longrightarrow> w \<in> set (split_acc cur s) \<Longrightarrow> clean w"
proof (induction s arbitrary: cur)
  case Nil
  then show ?case by (auto simp: clean_def split: if_splits)
next
  case (Cons c cs)
  show ?case
  proof (cases "is_space c")
    case True
    then have "w = cur \<and> cur \<noteq> [] \<or> w \<in> set (split_acc [] cs)"
      using Cons.prems(2) by (auto split: if_splits)
    then show ?thesis
      using Cons.IH[of "[]"] Cons.prems(1) by (auto simp: clean_def)
  next
    case False
    then have "w \<in> set (split_acc (cur @ [c]) cs)"
      using Cons.prems(2) by simp
    then show ?thesis
      using Cons.IH[of "cur @ [c]"] Cons.prems(1) False by auto
  qed
qed

lemma str_split_clean: "\<forall>w \<in> set (str_split s). clean w"
  using split_acc_clean[of "[]"] by (simp add: str_split_def)

lemma str_split_join:
  "\<forall>w \<in> set ws. clean w \<Longrightarrow> str_split (str_join '' '' ws) = ws"
  by (simp add: str_split_def split_join)

lemma str_split_join_filter:
  "str_split (str_join '' '' (filter P (str_split s))) = filter P (str_split s)"
  using str_split_clean by (intro str_split_join) auto

lemma str_split_join_split:
  "str_split (str_join '' '' (str_split s)) = str_split s"
  using str_split_clean by (intro str_split_join) auto

lemma split_acc_spaces:
  "\<forall>c \<in> set w. is_space c \<Longrightarrow> split_acc cur (s @ w) = split_acc cur s"
proof (induction s arbitrary: cur)
  case Nil
  then show ?case by (induction w arbitrary: cur) auto
next
  case (Cons c cs)
  then show ?case by simp
qed

lemma split_acc_dropWhile: "split_acc [] (dropWhile is_space s) = split_acc [] s"
  by (induction s) auto

lemma str_split_strip: "str_split (str_strip s) = str_split s"
proof -
  let ?t = "dropWhile is_space s"
  have "rev ?t = takeWhile is_space (rev ?t) @ dropWhile is_space (rev ?t)"
    by simp
  then have "?t = rev (dropWhile is_space (rev ?t)) @ rev (takeWhile is_space (rev ?t))"
    by (metis rev_append rev_rev_ident)
  moreover have "\<forall>c \<in> set (rev (takeWhile is_space (rev ?t))). is_space c"
    by (auto dest: set_takeWhileD)
  ultimately have "split_acc [] ?t = split_acc [] (rev (dropWhile is_space (rev ?t)))"
    by (metis split_acc_spaces)
  then show ?thesis
    by (simp add: str_split_def str_strip_def split_acc_dropWhile)
qed

lemma ntok_optimize_text: "length (str_split (optimize_text p)) \<le> length (str_split p)"
proof -
  let ?a = "replace_all verbose_replacements p"
  let ?b = "remove_fillers ?a"
  let ?c = "fix_punctuation ?b"
  let ?d = "replace_all pattern_table ?c"
  have "length (str_split (optimize_text p)) = length (str_split ?d)"
    by (simp add: optimize_text_def str_split_strip)
  also have "\<dots> \<le> length (str_split ?c)"
    by (rule ntok_replace_all [OF pattern_ok])
  also have "\<dots> \<le> length (str_split (str_join '' '' (str_split ?b)))"
    unfolding fix_punctuation_def by (rule ntok_replace_all [OF punctuation_ok])
  also have "\<dots> = length (str_split ?b)"
    by (simp add: str_split_join_split)
  also have "\<dots> \<le> length (str_split ?a)"
    by (simp add: remove_fillers_def str_split_join_filter)
  also have "\<dots> \<le> length (str_split p)"
    by (rule ntok_replace_all [OF verbose_ok])
  finally show ?thesis .
qed

lemma ntok_entropy: "length (str_split (entropy_optimization p)) \<le> length (str_split p)"
  by (simp add: entropy_optimization_def Let_def str_split_join_filter)

section \<open>Properties of the results\<close>

lemma reduction_ratio_nonneg: "0 \<le> reduction_ratio r"
  by (simp add: reduction_ratio_def token_reduction_def)

lemma api_quality_formula:
  "quality_score (optimize_prompt p) = min 0.95 (0.85 + reduction_ratio (optimize_prompt p) * 0.3)"
  by (simp add: optimize_prompt_def Let_def reduction_ratio_def)

lemma simple_quality_formula:
  assumes "simple_optimize_prompt p ctx = Inr r"
  shows "quality_score r = min 0.95 (0.8 + reduction_ratio r * 0.3)
         \<and> confidence (insights r) = quality_score r
         \<and> original_tokens (tokens r) = length (str_split p)"
proof -
  have ne: "length (str_split p) \<noteq> 0"
    using assms by (auto simp: simple_optimize_prompt_def Let_def split: if_splits)
  then have m: "max (length (str_split p)) (Suc 0) = length (str_split p)"
    by (cases "length (str_split p)") simp_all
  show ?thesis
    using assms ne
    by (auto simp: simple_optimize_prompt_def Let_def reduction_ratio_def m split: if_splits)
qed

lemma api_quality_no_tokens:
  "str_split p = [] \<Longrightarrow> quality_score (optimize_prompt p) = 0.85"
  by (simp add: optimize_prompt_def Let_def token_reduction_def)

lemma split_acc_Nil: "split_acc cur s = [] \<Longrightarrow> cur = [] \<and> (\<forall>c \<in> set s. is_space c)"
  by (induction s arbitrary: cur) (auto split: if_splits)

lemma str_split_Nil: "str_split s = [] \<Longrightarrow> \<forall>c \<in> set s. is_space c"
  using split_acc_Nil [of "[]" s] by (simp add: str_split_def)

lemma str_strip_spaces:
  assumes "\<forall>c \<in> set s. is_space c"
  shows "str_strip s = []"
proof -
  have "dropWhile is_space s = []"
    using assms by simp
  then show ?thesis
    unfolding str_strip_def by (simp only: rev.simps dropWhile.simps)
qed

lemma optimize_text_no_tokens:
  assumes "str_split p = []"
  shows "optimize_text p = []"
proof -
  let ?x = "replace_all pattern_table
       (fix_punctuation (remove_fillers (replace_all verbose_replacements p)))"
  have "length (str_split (optimize_text p)) \<le> 0"
    using ntok_optimize_text [of p] assms by simp
  then have "str_split ?x = []"
    by (simp add: optimize_text_def str_split_strip)
  then have "\<forall>c \<in> set ?x. is_space c"
    by (rule str_split_Nil)
  then show ?thesis
    unfolding optimize_text_def by (rule str_strip_spaces)
qed


section \<open>Properties of the backend\<close>

lemma str_contains_sublist: "str_contains old s = sublist old s"
  by (induction s) (simp_all add: sublist_Cons_right)

lemma distinct_indicators: "distinct complexity_indicators"
  by (simp add: complexity_indicators_def)

lemma indicator_count:
  "length (filter (\<lambda>i. str_contains i s) complexity_indicators)
     = card {i \<in> set complexity_indicators. sublist i s}"
proof -
  have "{i \<in> set complexity_indicators. sublist i s}
          = {i. sublist i s} \<inter> set complexity_indicators"
    by auto
  then show ?thesis
    using distinct_length_filter [OF distinct_indicators, of "\<lambda>i. sublist i s"]
    by (simp add: str_contains_sublist)
qed

lemma update_metrics_drop:
  "update_metrics now r (drop (length pre - 1000) pre)
     = drop (length (pre @ [(now, r)]) - 1000) (pre @ [(now, r)])"
proof (cases "length pre < 1000")
  case True
  then show ?thesis by (simp add: update_metrics_def Let_def)
next
  case False
  then have n: "1000 \<le> length pre" by simp
  then have "length (drop (length pre - 1000) pre) = 1000" by simp
  then have "update_metrics now r (drop (length pre - 1000) pre)
               = drop 1 (drop (length pre - 1000) pre @ [(now, r)])"
    by (simp add: update_metrics_def Let_def)
  also have "\<dots> = drop (Suc (length pre - 1000)) pre @ [(now, r)]"
    using n by simp
  also have "\<dots> = drop (length (pre @ [(now, r)]) - 1000) (pre @ [(now, r)])"
  proof -
    have "Suc (length pre - 1000) = length pre - 999" "length pre - 999 \<le> length pre"
      using n by arith+
    then show ?thesis by simp
  qed
  finally show ?thesis .
qed

lemma record_all_drop:
  "record_all calls (drop (length pre - 1000) pre)
     = drop (length (pre @ calls) - 1000) (pre @ calls)"
proof (induction calls arbitrary: pre)
  case Nil
  then show ?case by (simp add: record_all_def)
next
  case (Cons c calls)
  obtain now r where c: "c = (now, r)" by (cases c)
  have "record_all (c # calls) (drop (length pre - 1000) pre)
          = record_all calls (update_metrics now r (drop (length pre - 1000) pre))"
    by (simp add: record_all_def c)
  also have "\<dots> = record_all calls
                      (drop (length (pre @ [(now, r)]) - 1000) (pre @ [(now, r)]))"
    by (simp only: update_metrics_drop)
  also have "\<dots> = drop (length ((pre @ [(now, r)]) @ calls) - 1000) ((pre @ [(now, r)]) @ calls)"
    by (rule Cons.IH)
  finally show ?case by (simp add: c)
qed

lemma record_all_recent: "record_all calls [] = drop (length calls - 1000) calls"
  using record_all_drop [of calls "[]"] by simp

lemma total_is_length: "total_optimizations (get_real_time_analytics h) = length h"
  by (simp add: get_real_time_analytics_def Let_def)

lemma count_recorded:
  "total_optimizations (get_real_time_analytics (record_all calls []))
     = min 1000 (length calls)"
  by (simp add: total_is_length record_all_recent)

lemma count_after_record:
  "total_optimizations (get_real_time_analytics (update_metrics now r (record_all calls [])))
     = min 1000 (length calls + 1)"
proof -
  have "update_metrics now r (record_all calls []) = record_all (calls @ [(now, r)]) []"
    by (simp add: record_all_def)
  then show ?thesis
    by (simp add: count_recorded)
qed

lemma send_all_fold:
  "fold (\<lambda>connection (disconnected, sent).
             if fails connection then (disconnected @ [connection], sent)
             else (disconnected, sent @ [(connection, message)]))
        conns (d, s)
     = (d @ filter fails conns,
        s @ map (\<lambda>c. (c, message)) (filter (\<lambda>c. \<not> fails c) conns))"
  by (induction conns arbitrary: d s) auto

lemma send_all_filter:
  "send_all fails message conns
     = (filter fails conns, map (\<lambda>c. (c, message)) (filter (\<lambda>c. \<not> fails c) conns))"
  by (simp add: send_all_def send_all_fold)

lemma filter_only: "distinct conns \<Longrightarrow> k \<in> set conns \<Longrightarrow> filter (\<lambda>c. c = k) conns = [k]"
  by (induction conns) (auto simp: filter_empty_conv)

lemma broadcast_message_one_failure:
  assumes "distinct conns" "k \<in> set conns"
  shows "broadcast_message (\<lambda>c. c = k) message conns
           = (remove1 k conns, map (\<lambda>c. (c, message)) (filter (\<lambda>c. c \<noteq> k) conns))"
proof -
  have "conns \<noteq> []" using assms by auto
  then show ?thesis
    using assms
    by (simp add: broadcast_message_def send_all_filter filter_only remove_disconnected_def)
qed

subsection \<open>The broadcast of \<open>app.py\<close> with one failing subscriber\<close>

lemma broadcast_loop_end:
  "length conns \<le> i \<Longrightarrow> broadcast_loop fails message i conns sent = (conns, sent)"
  by (subst broadcast_loop.simps) simp

lemma broadcast_loop_ok:
  "i < length conns \<Longrightarrow> \<not> fails (conns ! i) \<Longrightarrow>
   broadcast_loop fails message i conns sent
     = broadcast_loop fails message (Suc i) conns (sent @ [(conns ! i, message)])"
  by (subst broadcast_loop.simps) (simp add: Let_def)

lemma broadcast_loop_fail:
  "i < length conns \<Longrightarrow> fails (conns ! i) \<Longrightarrow>
   broadcast_loop fails message i conns sent
     = broadcast_loop fails message (Suc i) (remove1 (conns ! i) conns) sent"
  by (subst broadcast_loop.simps) (simp add: Let_def)

text \<open>From position \<open>i\<close> up to position \<open>j\<close> no send fails.\<close>

lemma broadcast_loop_run:
  assumes "j \<le> length conns" "\<forall>n. i \<le> n \<and> n < j \<longrightarrow> \<not> fails (conns ! n)" "i \<le> j"
  shows "broadcast_loop fails message i conns sent
           = broadcast_loop fails message j conns
               (sent @ map (\<lambda>c. (c, message)) (take (j - i) (drop i conns)))"
  using assms
proof (induction "j - i" arbitrary: i sent)
  case 0
  then show ?case by simp
next
  case (Suc d)
  then have i: "i < j" "i < length conns" "\<not> fails (conns ! i)" by auto
  have d: "d = j - Suc i" using Suc.hyps by simp
  have t: "take (j - i) (drop i conns) = conns ! i # take (j - Suc i) (drop (Suc i) conns)"
    using i by (metis Cons_nth_drop_Suc Suc.hyps(2) d take_Suc_Cons)
  have "broadcast_loop fails message i conns sent
          = broadcast_loop fails message (Suc i) conns (sent @ [(conns ! i, message)])"
    using i by (simp add: broadcast_loop_ok)
  also have "\<dots> = broadcast_loop fails message j conns
      ((sent @ [(conns ! i, message)])
        @ map (\<lambda>c. (c, message)) (take (j - Suc i) (drop (Suc i) conns)))"
    using Suc.prems i by (intro Suc.hyps(1) [OF d]) auto
  finally show ?case by (simp add: t)
qed

lemma broadcast_one_failure:
  assumes "distinct (xs @ k # rest)"
  shows "broadcast (\<lambda>c. c = k) message (xs @ k # rest)
           = (xs @ rest, map (\<lambda>c. (c, message)) (xs @ tl rest))"
proof -
  let ?f = "\<lambda>c. c = k" and ?conns = "xs @ k # rest" and ?n = "length xs"
  have k: "k \<notin> set xs" "k \<notin> set rest" using assms by auto
  have 1: "broadcast_loop ?f message 0 ?conns []
             = broadcast_loop ?f message ?n ?conns (map (\<lambda>c. (c, message)) xs)"
  proof -
    have "\<forall>n. 0 \<le> n \<and> n < ?n \<longrightarrow> \<not> ?f (?conns ! n)"
      using k nth_mem by (fastforce simp: nth_append)
    then show ?thesis
      using broadcast_loop_run [of ?n ?conns 0 ?f message "[]"] by simp
  qed
  have 2: "broadcast_loop ?f message ?n ?conns (map (\<lambda>c. (c, message)) xs)
             = broadcast_loop ?f message (Suc ?n) (xs @ rest) (map (\<lambda>c. (c, message)) xs)"
    using k broadcast_loop_fail [of ?n ?conns ?f message]
    by (simp add: remove1_append)
  have 3: "broadcast_loop ?f message (Suc ?n) (xs @ rest) (map (\<lambda>c. (c, message)) xs)
             = (xs @ rest, map (\<lambda>c. (c, message)) (xs @ tl rest))"
  proof (cases rest)
    case Nil
    then show ?thesis by (simp add: broadcast_loop_end)
  next
    case (Cons y ys)
    have "\<forall>n. Suc ?n \<le> n \<and> n < length (xs @ rest) \<longrightarrow> \<not> ?f ((xs @ rest) ! n)"
      using k nth_mem by (fastforce simp: nth_append)
    then have "broadcast_loop ?f message (Suc ?n) (xs @ rest) (map (\<lambda>c. (c, message)) xs)
      = broadcast_loop ?f message (length (xs @ rest)) (xs @ rest)
          (map (\<lambda>c. (c, message)) xs
             @ map (\<lambda>c. (c, message))
                 (take (length (xs @ rest) - Suc ?n) (drop (Suc ?n) (xs @ rest))))"
      using Cons by (intro broadcast_loop_run) auto
    then show ?thesis using Cons by (simp add: broadcast_loop_end)
  qed
  show ?thesis unfolding broadcast_def using 1 2 3 by simp
qed

section \<open>Properties of the phrase stripping\<close>

lemma replace_scan_absent:
  "\<not> str_contains old s \<Longrightarrow> replace_scan old new s = s"
  by (induction s) auto

lemma length_replace_scan:
  "length (replace_scan old [] s) \<le> length s
   \<and> (old \<noteq> [] \<and> str_contains old s \<longrightarrow> length (replace_scan old [] s) < length s)"
proof (induction s rule: length_induct)
  case (1 s)
  show ?case
  proof (cases s)
    case Nil
    then show ?thesis by simp
  next
    case (Cons c cs)
    show ?thesis
    proof (cases "old \<noteq> [] \<and> prefix old s")
      case True
      then obtain rest where s: "s = old @ rest" by (auto simp: prefix_def)
      have lt: "length rest < length s" using s True by simp
      then have le: "length (replace_scan old [] rest) \<le> length rest"
        using 1 by blast
      have eq: "replace_scan old [] s = replace_scan old [] rest"
        using True s by (simp add: replace_scan_match)
      have "length (replace_scan old [] s) < length s"
        unfolding eq using lt le by linarith
      then show ?thesis by simp
    next
      case False
      then have rs: "replace_scan old [] s = c # replace_scan old [] cs"
        using Cons by auto
      have ih: "length (replace_scan old [] cs) \<le> length cs
         \<and> (old \<noteq> [] \<and> str_contains old cs \<longrightarrow> length (replace_scan old [] cs) < length cs)"
        using 1 Cons by simp
      have "old \<noteq> [] \<and> str_contains old s \<longrightarrow> str_contains old cs"
        using False Cons by auto
      then show ?thesis using rs ih Cons by auto
    qed
  qed
qed

lemma strip_phrases_Cons:
  "strip_phrases (ph # phs) s = strip_phrases phs (str_replace ph [] s)"
  by (simp add: strip_phrases_def)

lemma strip_phrases_absent:
  "\<forall>ph \<in> set phs. \<not> str_contains ph s \<Longrightarrow> strip_phrases phs s = s"
proof (induction phs)
  case Nil
  then show ?case by (simp add: strip_phrases_def)
next
  case (Cons ph phs)
  then have "ph \<noteq> []" "replace_scan ph [] s = s"
    by (auto simp: replace_scan_absent) (cases s; simp)
  then show ?case using Cons by (simp add: strip_phrases_Cons str_replace_def)
qed

lemma length_strip_phrases:
  "[] \<notin> set phs \<Longrightarrow> length (strip_phrases phs s) \<le> length s"
proof (induction phs arbitrary: s)
  case Nil
  then show ?case by (simp add: strip_phrases_def)
next
  case (Cons ph phs)
  have "length (strip_phrases phs (replace_scan ph [] s)) \<le> length (replace_scan ph [] s)"
    using Cons by simp
  also have "\<dots> \<le> length s"
    using length_replace_scan by blast
  finally have "length (strip_phrases phs (replace_scan ph [] s)) \<le> length s" .
  moreover have "ph \<noteq> []" using Cons.prems by auto
  ultimately show ?case by (simp add: strip_phrases_Cons str_replace_def)
qed

lemma length_strip_phrases_less:
  "[] \<notin> set phs \<Longrightarrow> \<exists>ph \<in> set phs. str_contains ph s \<Longrightarrow>
   length (strip_phrases phs s) < length s"
proof (induction phs)
  case Nil
  then show ?case by simp
next
  case (Cons ph phs)
  then have ne: "ph \<noteq> []" "[] \<notin> set phs" by auto
  show ?case
  proof (cases "str_contains ph s")
    case True
    have "length (strip_phrases phs (replace_scan ph [] s)) \<le> length (replace_scan ph [] s)"
      using ne by (simp add: length_strip_phrases)
    also have "\<dots> < length s"
      using length_replace_scan True ne by blast
    finally show ?thesis using ne by (simp add: strip_phrases_Cons str_replace_def)
  next
    case False
    then have "replace_scan ph [] s = s" by (rule replace_scan_absent)
    moreover have "\<exists>ph \<in> set phs. str_contains ph s"
      using Cons.prems False by auto
    ultimately show ?thesis
      using Cons.IH ne by (simp add: strip_phrases_Cons str_replace_def)
  qed
qed

lemma length_str_join_Cons:
  "length (str_join sep (w # ws))
     = length w + (if ws = [] then 0 else length sep + length (str_join sep ws))"
  by (cases ws) auto

lemma length_join_split_acc:
  "length (str_join '' '' (split_acc cur s)) \<le> length cur + length s"
proof (induction s arbitrary: cur)
  case Nil
  then show ?case by simp
next
  case (Cons c cs)
  show ?case
  proof (cases "is_space c")
    case True
    show ?thesis
      using True Cons.IH [of "[]"] by (simp add: length_str_join_Cons)
  next
    case False
    then show ?thesis
      using Cons.IH [of "cur @ [c]"] by simp
  qed
qed

lemma length_join_split: "length (str_join '' '' (str_split s)) \<le> length s"
  using length_join_split_acc [of "[]" s] by (simp add: str_split_def)

lemma join_split_fixed:
  "str_join '' '' (str_split (str_join '' '' (str_split s))) = str_join '' '' (str_split s)"
  by (simp add: str_split_join_split)

lemma no_empty_phrase: "[] \<notin> set redundant_phrases"
  by (simp add: redundant_phrases_def)

lemma dropWhile_fixed: "xs = [] \<or> \<not> P (hd xs) \<Longrightarrow> dropWhile P xs = xs"
  by (cases xs) auto

lemma str_strip_fixed:
  assumes "s = [] \<or> (\<not> is_space (hd s) \<and> \<not> is_space (last s))"
  shows "str_strip s = s"
proof -
  have "dropWhile is_space s = s"
    using assms by (intro dropWhile_fixed) auto
  moreover have "dropWhile is_space (rev s) = rev s"
    using assms by (intro dropWhile_fixed) (auto simp: hd_rev)
  ultimately show ?thesis by (simp add: str_strip_def)
qed

lemma str_strip_ends:
  "str_strip s = [] \<or> (\<not> is_space (hd (str_strip s)) \<and> \<not> is_space (last (str_strip s)))"
proof (cases "str_strip s = []")
  case True
  then show ?thesis by simp
next
  case False
  let ?y = "dropWhile is_space s"
  let ?z = "dropWhile is_space (rev ?y)"
  have z: "str_strip s = rev ?z" by (simp add: str_strip_def)
  then have zne: "?z \<noteq> []" using False by simp
  then have "\<not> is_space (hd ?z)" by (rule hd_dropWhile)
  then have l: "\<not> is_space (last (str_strip s))"
    using zne by (simp add: z last_rev)
  have yne: "?y \<noteq> []"
    using zne by (metis dropWhile.simps(1) rev.simps(1))
  then have hy: "\<not> is_space (hd ?y)" by (rule hd_dropWhile)
  have "rev ?y = takeWhile is_space (rev ?y) @ ?z" by simp
  then have "?y = rev ?z @ rev (takeWhile is_space (rev ?y))"
    by (metis rev_append rev_rev_ident)
  then have "hd ?y = hd (rev ?z)"
    using zne by (metis hd_append2 rev_is_Nil_conv)
  then show ?thesis using hy l z by simp
qed

lemma str_strip_idem: "str_strip (str_strip s) = str_strip s"
  using str_strip_ends [of s] by (rule str_strip_fixed)

lemma length_str_strip: "length (str_strip s) \<le> length s"
proof -
  have "length (str_strip s) \<le> length (dropWhile is_space s)"
    using length_dropWhile_le [of is_space "rev (dropWhile is_space s)"]
    by (simp add: str_strip_def)
  also have "\<dots> \<le> length s" by (rule length_dropWhile_le)
  finally show ?thesis .
qed

lemma simple_strip_phrases_Cons:
  "fold (\<lambda>phrase t. str_strip (str_replace phrase [] t)) (ph # phs) s
     = fold (\<lambda>phrase t. str_strip (str_replace phrase [] t)) phs (str_strip (str_replace ph [] s))"
  by simp

lemma simple_strip_absent:
  "\<forall>ph \<in> set phs. \<not> str_contains ph s \<Longrightarrow> str_strip s = s \<Longrightarrow>
   fold (\<lambda>phrase t. str_strip (str_replace phrase [] t)) phs s = s"
proof (induction phs)
  case Nil
  then show ?case by simp
next
  case (Cons ph phs)
  then have "ph \<noteq> []" "replace_scan ph [] s = s"
    by (auto simp: replace_scan_absent) (cases s; simp)
  then show ?case using Cons by (simp add: str_replace_def)
qed

lemma length_simple_strip:
  "[] \<notin> set phs \<Longrightarrow>
   length (fold (\<lambda>phrase t. str_strip (str_replace phrase [] t)) phs s) \<le> length s"
proof (induction phs arbitrary: s)
  case Nil
  then show ?case by simp
next
  case (Cons ph phs)
  let ?u = "str_strip (replace_scan ph [] s)"
  have "length (fold (\<lambda>phrase t. str_strip (str_replace phrase [] t)) phs ?u) \<le> length ?u"
    using Cons by simp
  also have "\<dots> \<le> length (replace_scan ph [] s)" by (rule length_str_strip)
  also have "\<dots> \<le> length s"
    using length_replace_scan by blast
  finally have "length (fold (\<lambda>phrase t. str_strip (str_replace phrase [] t)) phs ?u)
                  \<le> length s" .
  moreover have "ph \<noteq> []" using Cons.prems by auto
  ultimately show ?case by (simp add: str_replace_def)
qed

lemma length_simple_strip_less:
  "[] \<notin> set phs \<Longrightarrow> \<exists>ph \<in> set phs. str_contains ph s \<Longrightarrow> str_strip s = s \<Longrightarrow>
   length (fold (\<lambda>phrase t. str_strip (str_replace phrase [] t)) phs s) < length s"
proof (induction phs)
  case Nil
  then show ?case by simp
next
  case (Cons ph phs)
  then have ne: "ph \<noteq> []" "[] \<notin> set phs" by auto
  let ?u = "str_strip (replace_scan ph [] s)"
  show ?case
  proof (cases "str_contains ph s")
    case True
    have "length (fold (\<lambda>phrase t. str_strip (str_replace phrase [] t)) phs ?u) \<le> length ?u"
      using ne by (simp add: length_simple_strip)
    also have "\<dots> \<le> length (replace_scan ph [] s)" by (rule length_str_strip)
    also have "\<dots> < length s"
      using length_replace_scan True ne by blast
    finally show ?thesis using ne by (simp add: str_replace_def)
  next
    case False
    then have "replace_scan ph [] s = s" by (rule replace_scan_absent)
    moreover have "\<exists>ph \<in> set phs. str_contains ph s"
      using Cons.prems False by auto
    ultimately show ?thesis
      using Cons.IH Cons.prems(3) ne by (simp add: str_replace_def)
  qed
qed

lemma simple_strip_phrases_stripped:
  "str_strip (simple_strip_phrases s) = simple_strip_phrases s"
  by (simp add: simple_strip_phrases_def simple_redundant_phrases_def str_strip_idem)

lemma no_empty_simple_phrase: "[] \<notin> set simple_redundant_phrases"
  by (simp add: simple_redundant_phrases_def)

lemma simple_strip_phrases_twice:
  "((\<forall>ph \<in> set simple_redundant_phrases. \<not> sublist ph (simple_strip_phrases s)) \<longrightarrow>
      simple_strip_phrases (simple_strip_phrases s) = simple_strip_phrases s)
   \<and> ((\<exists>ph \<in> set simple_redundant_phrases. sublist ph (simple_strip_phrases s)) \<longrightarrow>
      length (simple_strip_phrases (simple_strip_phrases s))
        < length (simple_strip_phrases s))"
proof -
  let ?t = "simple_strip_phrases s"
  note st = simple_strip_phrases_stripped [of s]
  have a: "simple_strip_phrases ?t = ?t"
    if "\<forall>ph \<in> set simple_redundant_phrases. \<not> sublist ph ?t"
    unfolding simple_strip_phrases_def [of ?t]
    using that st by (intro simple_strip_absent) (simp_all add: str_contains_sublist)
  have b: "length (simple_strip_phrases ?t) < length ?t"
    if "\<exists>ph \<in> set simple_redundant_phrases. sublist ph ?t"
    unfolding simple_strip_phrases_def [of ?t]
    using that st no_empty_simple_phrase
    by (intro length_simple_strip_less) (simp_all add: str_contains_sublist)
  show ?thesis using a b by blast
qed

section \<open>The claims\<close>

text \<open>
  C1: with three subscribers \<open>k\<close>, \<open>a\<close>, \<open>b\<close>, the send to \<open>k\<close> failing,
  \<open>ConnectionManager.broadcast\<close> of \<open>app.py\<close> removes \<open>k\<close> and delivers to \<open>b\<close> only:
  \<open>a\<close> stays registered and receives nothing. \<open>broadcast_message\<close> of
  \<open>api/optimize.py\<close> delivers to both on the same input.
\<close>

theorem broadcast_skips_next_subscriber:
  "broadcast (\<lambda>c. c = ''k'') ''update'' [''k'', ''a'', ''b''] = ([''a'', ''b''], [(''b'', ''update'')])
   \<and> broadcast_message (\<lambda>c. c = ''k'') ''update'' [''k'', ''a'', ''b'']
       = ([''a'', ''b''], [(''a'', ''update''), (''b'', ''update'')])"
  by code_simp

text \<open>
  C2, amended: the route of \<open>api/optimize.py\<close> validates nothing. For every request it
  returns the result of \<open>optimize_prompt\<close> on the prompt, the strategy of the request
  being ignored; for an empty or whitespace-only prompt this result has an empty
  optimized text, 0 original tokens, cost reduction 0 and quality score 0.85.
\<close>

theorem optimize_without_validation:
  "optimize request = Inr (optimize_prompt (prompt request))
   \<and> (str_split (prompt request) = [] \<longrightarrow>
        optimized_prompt (optimize_prompt (prompt request)) = []
        \<and> original_tokens (tokens (optimize_prompt (prompt request))) = 0
        \<and> cost_reduction (optimize_prompt (prompt request)) = 0
        \<and> quality_score (optimize_prompt (prompt request)) = 0.85)"
proof -
  have "optimized_prompt (optimize_prompt (prompt request)) = []
        \<and> original_tokens (tokens (optimize_prompt (prompt request))) = 0
        \<and> cost_reduction (optimize_prompt (prompt request)) = 0
        \<and> quality_score (optimize_prompt (prompt request)) = 0.85"
    if "str_split (prompt request) = []"
    using that optimize_text_no_tokens [OF that] api_quality_no_tokens [OF that]
    by (simp add: optimize_prompt_def Let_def token_reduction_def)
  then show ?thesis
    by (simp add: optimize_def)
qed

theorem optimize_without_validation_witness:
  "optimize \<lparr> prompt = ''   '', context_type = ''general'', budget = 0.05,
              quality_threshold = 0.95, optimization_strategy = ''fastest'' \<rparr>
     = Inr (optimize_prompt ''   '')
   \<and> optimized_prompt (optimize_prompt ''   '') = []
   \<and> quality_score (optimize_prompt ''   '') = 0.85"
proof -
  have "str_split ''   '' = []"
    by code_simp
  then show ?thesis
    using optimize_without_validation [of "\<lparr> prompt = ''   '', context_type = ''general'',
      budget = 0.05, quality_threshold = 0.95, optimization_strategy = ''fastest'' \<rparr>"]
    by simp
qed

theorem optimize_validation_counterexample:
  "optimize \<lparr> prompt = [], context_type = ''general'', budget = 0.05,
              quality_threshold = 0.95, optimization_strategy = ''fastest'' \<rparr>
   = Inr \<lparr> original_prompt = [], optimized_prompt = [], cost_reduction = 0,
           quality_score = 0.85,
           tokens = \<lparr> original_tokens = 0, optimized_tokens = 0, reduction_percentage = 0 \<rparr>,
           insights = \<lparr> complexity_score = 0, confidence = 0.85, optimization_potential = 0,
                        strategy_effectiveness = 0 \<rparr>,
           optimization_strategies =
             [''filler_removal'', ''verbose_phrase_replacement'',
              ''punctuation_optimization'', ''pattern_optimization''] \<rparr>"
  by code_simp

text \<open>
  C3, amended: in \<open>api/optimize.py\<close> the quality score is
  \<open>min(0.95, 0.85 + ratio * 0.3)\<close>, where the ratio is the token reduction over
  \<open>max(original_tokens, 1)\<close>; it lies between 0.85 and 0.95, grows with the ratio, and
  the confidence equals it. In \<open>simple_app.py\<close>, for a prompt with at least one token,
  the base is 0.8 instead of 0.85: the quality score is \<open>min(0.95, 0.8 + ratio * 0.3)\<close>,
  between 0.8 and 0.95, and the confidence equals it.
\<close>

theorem quality_score_formula:
  "quality_score (optimize_prompt p)
     = min 0.95 (0.85 + reduction_ratio (optimize_prompt p) * 0.3)
   \<and> 0.85 \<le> quality_score (optimize_prompt p)
   \<and> quality_score (optimize_prompt p) \<le> 0.95
   \<and> confidence (insights (optimize_prompt p)) = quality_score (optimize_prompt p)
   \<and> (reduction_ratio (optimize_prompt p) \<le> reduction_ratio (optimize_prompt q)
        \<longrightarrow> quality_score (optimize_prompt p) \<le> quality_score (optimize_prompt q))
   \<and> (str_split p \<noteq> [] \<longrightarrow>
        (\<exists>r. simple_optimize_prompt p ctx = Inr r
           \<and> quality_score r = min 0.95 (0.8 + reduction_ratio r * 0.3)
           \<and> 0.8 \<le> quality_score r \<and> quality_score r \<le> 0.95
           \<and> confidence (insights r) = quality_score r))"
proof -
  have a: "quality_score (optimize_prompt p)
             = min 0.95 (0.85 + reduction_ratio (optimize_prompt p) * 0.3)"
    by (rule api_quality_formula)
  have b: "0.85 \<le> quality_score (optimize_prompt p)"
    using reduction_ratio_nonneg [of "optimize_prompt p"] by (simp add: a)
  have c: "quality_score (optimize_prompt p) \<le> 0.95"
    unfolding a by (rule min.cobounded1)
  have d: "confidence (insights (optimize_prompt p)) = quality_score (optimize_prompt p)"
    by (simp add: optimize_prompt_def Let_def)
  have e: "reduction_ratio (optimize_prompt p) \<le> reduction_ratio (optimize_prompt q)
        \<longrightarrow> quality_score (optimize_prompt p) \<le> quality_score (optimize_prompt q)"
    by (auto simp: api_quality_formula min_def)
  have f: "\<exists>r. simple_optimize_prompt p ctx = Inr r
           \<and> quality_score r = min 0.95 (0.8 + reduction_ratio r * 0.3)
           \<and> 0.8 \<le> quality_score r \<and> quality_score r \<le> 0.95
           \<and> confidence (insights r) = quality_score r" if "str_split p \<noteq> []"
  proof -
    have "\<exists>r. simple_optimize_prompt p ctx = Inr r"
      using that by (simp add: simple_optimize_prompt_def Let_def)
    then obtain r where r: "simple_optimize_prompt p ctx = Inr r" ..
    note q = simple_quality_formula [OF r]
    have "0.8 \<le> quality_score r"
      using reduction_ratio_nonneg [of r] q by simp
    moreover have "quality_score r \<le> 0.95"
      using q min.cobounded1 [of "0.95::real"] by simp
    ultimately show ?thesis using r q by blast
  qed
  show ?thesis using a b c d e f by blast
qed

theorem quality_score_formula_witness:
  "quality_score (optimize_prompt ''in order to win'') = 0.95
   \<and> quality_score (optimize_prompt ''hello'') = 0.85
   \<and> (\<exists>r. simple_optimize_prompt ''in order to win'' ''general'' = Inr r
         \<and> quality_score r = 0.95 \<and> confidence (insights r) = 0.95)"
proof -
  let ?p = "''in order to win''" and ?q = "''hello''"
  have r: "reduction_ratio (optimize_prompt ?p) = 3 / 4"
          "reduction_ratio (optimize_prompt ?q) = 0"
    by code_simp+
  have s: "str_split ?p \<noteq> []"
    by code_simp
  have t: "reduction_ratio r = 1 / 2" if "simple_optimize_prompt ?p ''general'' = Inr r" for r
  proof -
    have "map_sum id reduction_ratio (simple_optimize_prompt ?p ''general'') = Inr (1 / 2)"
      by code_simp
    then show ?thesis using that by simp
  qed
  show ?thesis
    using quality_score_formula [of ?p ?p "''general''"] quality_score_formula [of ?q ?q "''general''"]
      r s t by auto
qed

theorem quality_score_counterexample:
  "length (str_split ''hello'') = 1
   \<and> map_sum id quality_score (simple_optimize_prompt ''hello'' ''general'') = Inr 0.8"
  by code_simp

text \<open>
  C4: the text returned by the pipeline of \<open>api/optimize.py\<close> (verbose phrases, filler
  words, punctuation, patterns) has at most as many whitespace-separated tokens as the
  prompt, and so has the text returned by the entropy pruning of \<open>app.py\<close>. This holds
  for every prompt, the empty one included.
\<close>

theorem optimized_tokens_le_original:
  "optimized_tokens (tokens (optimize_prompt p)) \<le> original_tokens (tokens (optimize_prompt p))
   \<and> length (str_split (optimized_prompt (optimize_prompt p))) \<le> length (str_split p)
   \<and> length (str_split (entropy_optimization p)) \<le> length (str_split p)"
  using ntok_optimize_text [of p] ntok_entropy [of p]
  by (simp add: optimize_prompt_def Let_def)

theorem optimized_tokens_le_original_witness:
  "length (str_split (optimized_prompt (optimize_prompt
      ''Please, in order to build a chatbot, I would like to create a React component'')))
   \<le> 15"
proof -
  have "length (str_split
          ''Please, in order to build a chatbot, I would like to create a React component'')
        = 15"
    by (simp add: str_split_def is_space_def)
  then show ?thesis
    using optimized_tokens_le_original
      [of "''Please, in order to build a chatbot, I would like to create a React component''"]
    by simp
qed

text \<open>
  C5, amended: after any sequence of calls of \<open>update_metrics\<close> on an empty history, the
  history holds at most 1000 entries, namely the last 1000 calls in the order of the
  calls. A further call raises the count of the analytics by one while the history
  holds fewer than 1000 entries; once it holds 1000 the count stays at 1000. After 1001
  calls the history has exactly 1000 entries, the first call being the one that is gone.
\<close>

theorem history_bounded_fifo:
  "length (record_all calls []) \<le> 1000
   \<and> record_all calls [] = drop (length calls - 1000) calls
   \<and> total_optimizations (get_real_time_analytics (update_metrics now r (record_all calls [])))
       = min 1000 (total_optimizations (get_real_time_analytics (record_all calls [])) + 1)
   \<and> (length calls < 1000 \<longrightarrow>
        total_optimizations (get_real_time_analytics (update_metrics now r (record_all calls [])))
          = total_optimizations (get_real_time_analytics (record_all calls [])) + 1)
   \<and> (1000 \<le> length calls \<longrightarrow>
        total_optimizations (get_real_time_analytics (record_all calls [])) = 1000
        \<and> total_optimizations
            (get_real_time_analytics (update_metrics now r (record_all calls []))) = 1000)
   \<and> (length calls = 1001 \<longrightarrow>
        length (record_all calls []) = 1000 \<and> record_all calls [] = tl calls)"
proof -
  have a: "record_all calls [] = drop (length calls - 1000) calls"
    by (rule record_all_recent)
  have b: "length (record_all calls []) = min 1000 (length calls)"
    unfolding a by simp
  have c: "total_optimizations (get_real_time_analytics (record_all calls []))
             = min 1000 (length calls)"
    by (rule count_recorded)
  have d: "total_optimizations
             (get_real_time_analytics (update_metrics now r (record_all calls [])))
             = min 1000 (length calls + 1)"
    by (rule count_after_record)
  have e: "record_all calls [] = tl calls" if "length calls = 1001"
    using that by (simp add: a drop_Suc)
  show ?thesis
    using a b e unfolding c d by auto
qed

theorem history_bounded_fifo_witness:
  "length (record_all
      (map (\<lambda>n. (''t'', (optimize_prompt ''hello'')\<lparr> cost_reduction := real n \<rparr>)) [0..<1001]) [])
     = 1000
   \<and> record_all
      (map (\<lambda>n. (''t'', (optimize_prompt ''hello'')\<lparr> cost_reduction := real n \<rparr>)) [0..<1001]) []
     = map (\<lambda>n. (''t'', (optimize_prompt ''hello'')\<lparr> cost_reduction := real n \<rparr>)) [Suc 0..<1001]
   \<and> total_optimizations (get_real_time_analytics (update_metrics ''t'' (optimize_prompt ''hello'')
        (record_all [(''s'', optimize_prompt ''hello'')] []))) = 2
   \<and> total_optimizations (get_real_time_analytics (update_metrics ''t'' (optimize_prompt ''hello'')
        (record_all
          (map (\<lambda>n. (''t'', (optimize_prompt ''hello'')\<lparr> cost_reduction := real n \<rparr>))
             [0..<1001]) []))) = 1000"
proof -
  let ?f = "\<lambda>n. (''t'', (optimize_prompt ''hello'')\<lparr> cost_reduction := real n \<rparr>)"
  let ?one = "[(''s'', optimize_prompt ''hello'')]"
  have "[0..<1001] = 0 # [Suc 0..<1001]"
    by (rule upt_conv_Cons) simp
  then have t: "tl (map ?f [0..<1001]) = map ?f [Suc 0..<1001]"
    by (simp only: list.map list.sel)
  have l: "length (map ?f [0..<1001]) = 1001" "1000 \<le> length (map ?f [0..<1001])"
    by simp_all
  note h = history_bounded_fifo [of "map ?f [0..<1001]" "''t''" "optimize_prompt ''hello''"]
  from h l have a: "length (record_all (map ?f [0..<1001]) []) = 1000"
    by blast
  from h l have "record_all (map ?f [0..<1001]) [] = tl (map ?f [0..<1001])"
    by blast
  then have b: "record_all (map ?f [0..<1001]) [] = map ?f [Suc 0..<1001]"
    by (simp only: t)
  from h l have d: "total_optimizations (get_real_time_analytics
      (update_metrics ''t'' (optimize_prompt ''hello'') (record_all (map ?f [0..<1001]) [])))
      = 1000"
    by blast
  have l1: "length ?one < 1000"
    by simp
  have c0: "total_optimizations (get_real_time_analytics (record_all ?one [])) = 1"
    by (simp add: count_recorded)
  from history_bounded_fifo [of ?one "''t''" "optimize_prompt ''hello''"] l1
  have "total_optimizations (get_real_time_analytics
      (update_metrics ''t'' (optimize_prompt ''hello'') (record_all ?one [])))
      = total_optimizations (get_real_time_analytics (record_all ?one [])) + 1"
    by blast
  then have c: "total_optimizations (get_real_time_analytics
      (update_metrics ''t'' (optimize_prompt ''hello'') (record_all ?one []))) = 2"
    unfolding c0 by simp
  show ?thesis
    using a b c d by (intro conjI)
qed

theorem history_count_counterexample:
  "total_optimizations (get_real_time_analytics (record_all
      (map (\<lambda>n. (''t'', (optimize_prompt ''hello'')\<lparr> cost_reduction := real n \<rparr>)) [0..<1000]) []))
     = 1000
   \<and> total_optimizations (get_real_time_analytics (update_metrics ''t'' (optimize_prompt ''hello'')
        (record_all
          (map (\<lambda>n. (''t'', (optimize_prompt ''hello'')\<lparr> cost_reduction := real n \<rparr>))
             [0..<1000]) [])))
     = 1000"
  by (simp add: count_recorded count_after_record)


text \<open>
  C6, amended: with the strategy \<open>auto\<close>, lines 437 to 452 of \<open>app.py\<close> choose by the
  complexity score of the insights alone. Above 0.7 they apply the entropy pruning; above
  0.4 and at most 0.7 the entropy pruning, then \<open>semantic_compression\<close>, then the
  stripping of the redundant phrases; at most 0.4 \<open>semantic_compression\<close> alone. Here
  \<open>semantic_compression\<close> is not the replacement of verbose phrases: it lower-cases the
  whole text and then applies its own table, which turns a verb with its article into
  another verb.
\<close>

theorem auto_strategy_by_complexity:
  assumes "optimization_strategy request = ''auto''"
  shows "(complexity_score ins > 0.7 \<longrightarrow>
            select_and_apply request ins = Inr (entropy_optimization (prompt request)))
       \<and> (0.4 < complexity_score ins \<and> complexity_score ins \<le> 0.7 \<longrightarrow>
            select_and_apply request ins
              = Inr (context_aware_trimming (semantic_compression
                      (entropy_optimization (prompt request)))))
       \<and> (complexity_score ins \<le> 0.4 \<longrightarrow>
            select_and_apply request ins = Inr (semantic_compression (prompt request)))
       \<and> semantic_compression (prompt request)
            = replace_all semantic_replacements (str_lower (prompt request))"
proof -
  have s: "strategies ''ml_guided_optimization'' = Some (Guided ml_guided_optimization)"
    "strategies ''adaptive_compression'' = Some (Plain adaptive_compression)"
    "strategies ''semantic_compression'' = Some (Plain semantic_compression)"
    by (simp_all add: strategies_def)
  show ?thesis
    using assms
    by (simp add: select_and_apply_def select_strategy_def apply_strategy_def s
        ml_guided_optimization_def adaptive_compression_def semantic_compression_def)
qed

theorem auto_strategy_by_complexity_witness:
  "select_and_apply
     \<lparr> prompt = ''Please create a Distributed real-time machine learning algorithm'',
       context_type = ''general'', budget = 0.05, quality_threshold = 0.95,
       optimization_strategy = ''auto'' \<rparr>
     \<lparr> complexity_score = 0.8, confidence = 0.5,
       predicted_cost_reduction = 0.2, predicted_quality = 0.9 \<rparr>
     = Inr ''Please create a Distributed real-time machine learning algorithm''
   \<and> select_and_apply
     \<lparr> prompt = ''Please create a Distributed real-time machine learning thing'',
       context_type = ''general'', budget = 0.05, quality_threshold = 0.95,
       optimization_strategy = ''auto'' \<rparr>
     \<lparr> complexity_score = 0.6, confidence = 0.5,
       predicted_cost_reduction = 0.2, predicted_quality = 0.9 \<rparr>
     = Inr ''build distributed real-time machine learning thing''
   \<and> select_and_apply
     \<lparr> prompt = ''Please create a thing'',
       context_type = ''general'', budget = 0.05, quality_threshold = 0.95,
       optimization_strategy = ''auto'' \<rparr>
     \<lparr> complexity_score = 0, confidence = 0.5,
       predicted_cost_reduction = 0.2, predicted_quality = 0.9 \<rparr>
     = Inr ''please build thing''"
proof -
  let ?p1 = "''Please create a Distributed real-time machine learning algorithm''"
  let ?p2 = "''Please create a Distributed real-time machine learning thing''"
  let ?p3 = "''Please create a thing''"
  let ?r = "\<lambda>p. \<lparr> prompt = p, context_type = ''general'', budget = 0.05,
                   quality_threshold = 0.95, optimization_strategy = ''auto'' \<rparr>"
  let ?i = "\<lambda>c. \<lparr> complexity_score = c, confidence = 0.5,
                   predicted_cost_reduction = 0.2, predicted_quality = 0.9 \<rparr>"
  have t: "entropy_optimization ?p1 = ?p1"
    "context_aware_trimming (semantic_compression (entropy_optimization ?p2))
       = ''build distributed real-time machine learning thing''"
    "semantic_compression ?p3 = ''please build thing''"
    by code_simp+
  show ?thesis
    using auto_strategy_by_complexity [of "?r ?p1" "?i 0.8"]
      auto_strategy_by_complexity [of "?r ?p2" "?i 0.6"]
      auto_strategy_by_complexity [of "?r ?p3" "?i 0"]
    by (simp add: t)
qed

theorem auto_strategy_counterexample:
  "calculate_complexity ''Hello World'' = 0
   \<and> select_and_apply
        \<lparr> prompt = ''Hello World'', context_type = ''general'', budget = 0.05,
          quality_threshold = 0.95, optimization_strategy = ''auto'' \<rparr>
        \<lparr> complexity_score = 0, confidence = 0.5,
          predicted_cost_reduction = 0.2, predicted_quality = 0.9 \<rparr>
      = Inr ''hello world''
   \<and> replace_all verbose_replacements ''Hello World'' = ''Hello World''
   \<and> replace_all semantic_replacements ''Hello World'' = ''Hello World''
   \<and> optimized_prompt_of (\<lambda>_. (0.2, 0.9))
        \<lparr> prompt = ''Hello World'', context_type = ''general'', budget = 0.05,
          quality_threshold = 0.95, optimization_strategy = ''auto'' \<rparr>
      = Inl TypeError"
  by code_simp


text \<open>
  C7, amended: in \<open>app.py\<close> the complexity score is the number of entries of the
  buzzword list that occur in the lower-cased prompt as a substring, each entry counted
  once however often it occurs, divided by 5 and capped at 1; it lies between 0 and 1.
  In \<open>api/optimize.py\<close> the complexity score is \<open>min(1, original_tokens / 50)\<close>: it
  depends on the token count of the prompt and on nothing else.
\<close>

theorem complexity_by_variant:
  "calculate_complexity p
     = min 1 (real (card {i \<in> set complexity_indicators. sublist i (str_lower p)}) / 5)
   \<and> 0 \<le> calculate_complexity p \<and> calculate_complexity p \<le> 1
   \<and> complexity_score (insights (optimize_prompt p)) = min 1 (real (length (str_split p)) / 50)"
proof -
  have a: "calculate_complexity p
     = min 1 (real (card {i \<in> set complexity_indicators. sublist i (str_lower p)}) / 5)"
    by (simp add: calculate_complexity_def Let_def indicator_count)
  have "0 \<le> calculate_complexity p" "calculate_complexity p \<le> 1"
    unfolding a by simp_all
  moreover have "complexity_score (insights (optimize_prompt p))
                   = min 1 (real (length (str_split p)) / 50)"
    by (simp add: optimize_prompt_def Let_def)
  ultimately show ?thesis using a by blast
qed

theorem complexity_by_variant_witness:
  "calculate_complexity ''Train a Machine Learning model, then a machine learning algorithm'' = 2 / 5
   \<and> complexity_score (insights (optimize_prompt ''hello world'')) = 1 / 25"
proof -
  let ?p = "''Train a Machine Learning model, then a machine learning algorithm''"
  have "length (filter (\<lambda>i. str_contains i (str_lower ?p)) complexity_indicators) = 2"
    by code_simp
  then have "card {i \<in> set complexity_indicators. sublist i (str_lower ?p)} = 2"
    by (simp add: indicator_count)
  moreover have "length (str_split ''hello world'') = 2"
    by code_simp
  ultimately show ?thesis
    using complexity_by_variant [of ?p] complexity_by_variant [of "''hello world''"]
    by simp
qed

theorem complexity_counterexample:
  "length (filter (\<lambda>i. str_contains i (str_lower ''hello world'')) complexity_indicators) = 0
   \<and> complexity_score (insights (optimize_prompt ''hello world'')) = 1 / 25
   \<and> complexity_score (insights (optimize_prompt ''hello'')) = 1 / 50"
  by code_simp

text \<open>
  C8, amended: in \<open>api/optimize.py\<close> the filler-word step splits the text on whitespace
  and drops a token exactly when its lower-case form is in the stop-word set and it has
  at most 3 characters; the tokens that stay keep their order. In \<open>start-fastapi.py\<close>
  the filter has no length test: every token whose lower-case form is in its stop-word
  list is dropped, whatever its length.
\<close>

theorem filler_removal_rule:
  "str_split (remove_fillers s)
     = filter (\<lambda>w. \<not> (str_lower w \<in> set filler_words \<and> length w \<le> 3)) (str_split s)
   \<and> str_split (start_remove_fillers s)
     = filter (\<lambda>w. str_lower w \<notin> set start_filler_words) (str_split s)"
proof -
  have "keep_word = (\<lambda>w. \<not> (str_lower w \<in> set filler_words \<and> length w \<le> 3))"
    by (auto simp: keep_word_def fun_eq_iff)
  then show ?thesis
    by (simp add: remove_fillers_def start_remove_fillers_def str_split_join_filter)
qed

theorem filler_removal_rule_witness:
  "str_split (remove_fillers ''Deal WITH The API'') = [''Deal'', ''WITH'', ''API'']
   \<and> str_split (start_remove_fillers ''Deal WITH The API'') = [''Deal'', ''API'']"
proof -
  have "filter (\<lambda>w. \<not> (str_lower w \<in> set filler_words \<and> length w \<le> 3))
          (str_split ''Deal WITH The API'') = [''Deal'', ''WITH'', ''API'']"
    by code_simp
  moreover have "filter (\<lambda>w. str_lower w \<notin> set start_filler_words)
          (str_split ''Deal WITH The API'') = [''Deal'', ''API'']"
    by code_simp
  ultimately show ?thesis
    using filler_removal_rule [of "''Deal WITH The API''"] by simp
qed

theorem filler_removal_counterexample:
  "str_lower ''with'' \<in> set start_filler_words \<and> length ''with'' > 3
   \<and> str_split ''deal with it'' = [''deal'', ''with'', ''it'']
   \<and> str_split (start_remove_fillers ''deal with it'') = [''deal'', ''it'']"
  by code_simp

text \<open>
  C9, amended: applying the redundant-phrase stripping of \<open>app.py\<close> a second time
  leaves the first output unchanged when no phrase of the list occurs in that output,
  and otherwise makes it strictly shorter; so repeated application reaches a fixed
  point, but two applications need not equal one. The phrase loop of \<open>simple_app.py\<close>
  (each removal followed by \<open>strip\<close>) behaves in the same way.
\<close>

theorem stripping_twice:
  "((\<forall>ph \<in> set redundant_phrases. \<not> sublist ph (context_aware_trimming s)) \<longrightarrow>
      context_aware_trimming (context_aware_trimming s) = context_aware_trimming s)
   \<and> ((\<exists>ph \<in> set redundant_phrases. sublist ph (context_aware_trimming s)) \<longrightarrow>
      length (context_aware_trimming (context_aware_trimming s))
        < length (context_aware_trimming s))
   \<and> ((\<forall>ph \<in> set simple_redundant_phrases. \<not> sublist ph (simple_strip_phrases s)) \<longrightarrow>
      simple_strip_phrases (simple_strip_phrases s) = simple_strip_phrases s)
   \<and> ((\<exists>ph \<in> set simple_redundant_phrases. sublist ph (simple_strip_phrases s)) \<longrightarrow>
      length (simple_strip_phrases (simple_strip_phrases s))
        < length (simple_strip_phrases s))"
proof -
  let ?t = "context_aware_trimming s"
  have fixed: "str_join '' '' (str_split ?t) = ?t"
    by (simp add: context_aware_trimming_def join_split_fixed)
  have a: "context_aware_trimming ?t = ?t"
    if "\<forall>ph \<in> set redundant_phrases. \<not> sublist ph ?t"
  proof -
    have "strip_phrases redundant_phrases ?t = ?t"
      using that by (intro strip_phrases_absent) (simp add: str_contains_sublist)
    then show ?thesis
      using fixed by (simp add: context_aware_trimming_def [of ?t])
  qed
  have b: "length (context_aware_trimming ?t) < length ?t"
    if "\<exists>ph \<in> set redundant_phrases. sublist ph ?t"
  proof -
    have "length (context_aware_trimming ?t) \<le> length (strip_phrases redundant_phrases ?t)"
      by (simp add: context_aware_trimming_def [of ?t] length_join_split)
    also have "\<dots> < length ?t"
      using that no_empty_phrase
      by (intro length_strip_phrases_less) (simp_all add: str_contains_sublist)
    finally show ?thesis .
  qed
  show ?thesis using a b simple_strip_phrases_twice [of s] by blast
qed

theorem stripping_twice_witness:
  "context_aware_trimming (context_aware_trimming ''could you please help'')
     = context_aware_trimming ''could you please help''
   \<and> length (context_aware_trimming (context_aware_trimming ''could  you help''))
       < length (context_aware_trimming ''could  you help'')
   \<and> simple_strip_phrases (simple_strip_phrases ''please help me'')
       = simple_strip_phrases ''please help me''
   \<and> length (simple_strip_phrases (simple_strip_phrases ''kindi need toly give advice''))
       < length (simple_strip_phrases ''kindi need toly give advice'')"
proof -
  have e: "context_aware_trimming ''could you please help'' = ''help''"
    "context_aware_trimming ''could  you help'' = ''could you help''"
    "simple_strip_phrases ''please help me'' = ''help me''"
    "simple_strip_phrases ''kindi need toly give advice'' = ''kindly give advice''"
    by code_simp+
  have "\<forall>ph \<in> set redundant_phrases. \<not> sublist ph ''help''"
    by code_simp
  moreover have "\<exists>ph \<in> set redundant_phrases. sublist ph ''could you help''"
    by code_simp
  moreover have "\<forall>ph \<in> set simple_redundant_phrases. \<not> sublist ph ''help me''"
    by code_simp
  moreover have "\<exists>ph \<in> set simple_redundant_phrases. sublist ph ''kindly give advice''"
    by code_simp
  ultimately show ?thesis
    using stripping_twice [of "''could you please help''"]
      stripping_twice [of "''could  you help''"]
      stripping_twice [of "''please help me''"]
      stripping_twice [of "''kindi need toly give advice''"]
    unfolding e by blast
qed

theorem stripping_twice_counterexample:
  "context_aware_trimming ''could  you help'' = ''could you help''
   \<and> context_aware_trimming (context_aware_trimming ''could  you help'') = ''help''
   \<and> simple_strip_phrases ''kindi need toly give advice'' = ''kindly give advice''
   \<and> simple_strip_phrases (simple_strip_phrases ''kindi need toly give advice'')
       = ''give advice''"
  by code_simp

text \<open>
  C10: for a prompt whose whitespace split is empty, \<open>simple_optimize_prompt\<close> raises
  \<open>ZeroDivisionError\<close>, while the route of \<open>api/optimize.py\<close> returns a result, with 0
  original tokens and quality score 0.85.
\<close>

theorem simple_app_division_by_zero:
  assumes "str_split p = []"
  shows "simple_optimize_prompt p ctx = Inl ZeroDivisionError
         \<and> optimize \<lparr> prompt = p, context_type = ctx, budget = b, quality_threshold = q,
                      optimization_strategy = st \<rparr> = Inr (optimize_prompt p)
         \<and> original_tokens (tokens (optimize_prompt p)) = 0
         \<and> quality_score (optimize_prompt p) = 0.85"
  using assms api_quality_no_tokens [of p]
  by (simp add: simple_optimize_prompt_def optimize_def Let_def)
     (simp add: optimize_prompt_def Let_def)

theorem simple_app_division_by_zero_witness:
  "simple_optimize_prompt '' '' ''general'' = Inl ZeroDivisionError
   \<and> simple_optimize_prompt [] ''general'' = Inl ZeroDivisionError
   \<and> quality_score (optimize_prompt '' '') = 0.85"
proof -
  have "str_split '' '' = []" "str_split [] = []"
    by code_simp+
  then show ?thesis
    using simple_app_division_by_zero [of "'' ''" "''general''"]
      simple_app_division_by_zero [of "[]" "''general''"]
    by simp
qed

end
